theory Spec2Isabelle
  imports Main "HOL-Library.Sublist"
begin

section \<open>Paths\<close>

text \<open>
  The notebook uses four functions of \<^verbatim>\<open>os.path\<close> (POSIX flavour):
  \<^verbatim>\<open>join\<close>, \<^verbatim>\<open>basename\<close>, \<^verbatim>\<open>splitext\<close> and \<^verbatim>\<open>exists\<close>.
  Paths are strings and the separator is \<^verbatim>\<open>/\<close>.
\<close>

definition path_join :: "string \<Rightarrow> string \<Rightarrow> string" where
  "path_join a b =
     (if b \<noteq> [] \<and> hd b = CHR ''/'' then b
      else if a = [] \<or> last a = CHR ''/'' then a @ b
      else a @ ''/'' @ b)"

definition basename :: "string \<Rightarrow> string" where
  "basename p = rev (takeWhile (\<lambda>ch. ch \<noteq> CHR ''/'') (rev p))"

text \<open>
  \<^verbatim>\<open>splitext\<close> cuts at the last dot of the last path component, unless only dots
  come before it there (\<^verbatim>\<open>.bashrc\<close> has no extension).
\<close>

definition splitext :: "string \<Rightarrow> string \<times> string" where
  "splitext p =
     (let name = basename p;
          ext = rev (takeWhile (\<lambda>ch. ch \<noteq> CHR ''.'') (rev name));
          stem = take (length name - length ext - 1) name
      in if CHR ''.'' \<in> set name \<and> filter (\<lambda>ch. ch \<noteq> CHR ''.'') stem \<noteq> []
         then (take (length p - length ext - 1) p, CHR ''.'' # ext)
         else (p, []))"

section \<open>The source tree and its traversal\<close>

text \<open>
  A directory holds named subdirectories and files, each in the order the operating
  system lists them. A file is its name together with the lines that reading
  \<^verbatim>\<open>os.path.join(root, f)\<close> yields.
\<close>

type_synonym src_file = "string \<times> string list"

datatype dirtree = Dir (subdirs: "(string \<times> dirtree) list") (files: "src_file list")

text \<open>One item of \<^verbatim>\<open>os.walk\<close>: the triple \<^verbatim>\<open>(root, dirs, files)\<close>.\<close>

type_synonym entry = "string \<times> string list \<times> src_file list"

text \<open>
  \<^verbatim>\<open>os.walk(top)\<close> is top-down: the directory itself first, then each subdirectory
  in turn, to every depth.
\<close>

fun os_walk :: "string \<Rightarrow> dirtree \<Rightarrow> entry list" where
  "os_walk path (Dir ds fs) =
     (path, map fst ds, fs) # concat (map (\<lambda>d. os_walk (path_join path (fst d)) (snd d)) ds)"

section \<open>The decoders and the encoder\<close>

text \<open>
  The readers and the writer are \<^verbatim>\<open>pandas.read_json\<close>, \<^verbatim>\<open>pandas.read_csv\<close> and
  \<^verbatim>\<open>DataFrame.to_json\<close>. What they do with one line of text is a parameter of the
  model: \<open>json_line\<close> parses one line of a JSON-lines file into its fields,
  \<open>csv_header\<close> parses the first line of a CSV file into the column names,
  \<open>csv_row\<close> parses one data row into the fields of the given columns, and
  \<open>json_value\<close> serialises one cell of a column of a frame, given the whole column
  (pandas fixes the type of a column from all of its cells; an absent cell is NaN).
  \<open>'e\<close> is what a failed parse reports, \<open>'a\<close> a decoded cell, \<open>'b\<close> a serialised value.
\<close>

record ('e, 'a, 'b) pandas =
  json_line :: "string \<Rightarrow> 'e + (string \<times> 'a) list"
  csv_header :: "string \<Rightarrow> 'e + string list"
  csv_row :: "string list \<Rightarrow> string \<Rightarrow> 'e + (string \<times> 'a) list"
  json_value :: "'a option list \<Rightarrow> 'a option \<Rightarrow> 'b"

datatype 'e error =
    DecodeError 'e
  | EmptyDataError
  | ValueError
  | FileNotFoundError
  | FileExistsError

text \<open>
  A frame is a list of column names and a list of rows; a row need not have every
  column. A serialised record is one JSON object: its keys in order, with their values.
\<close>

type_synonym 'a frame = "string list \<times> (string \<times> 'a) list list"

type_synonym 'b jrecord = "(string \<times> 'b) list"

text \<open>The iterator takes \<open>n\<close> lines at a time until none is left.\<close>

function chunks :: "nat \<Rightarrow> 'x list \<Rightarrow> 'x list list" where
  "chunks n xs = (if n = 0 \<or> xs = [] then [] else take n xs # chunks n (drop n xs))"
  by pat_completeness auto
termination
  by (relation "measure (\<lambda>(n, xs). length xs)") auto

text \<open>Parsing the lines of a chunk fails with the report of its first bad line.\<close>

fun parse_all :: "('l \<Rightarrow> 'e + 'r) \<Rightarrow> 'l list \<Rightarrow> 'e + 'r list" where
  "parse_all p [] = Inr []"
| "parse_all p (l # ls) =
     (case p l of
        Inl e \<Rightarrow> Inl e
      | Inr r \<Rightarrow> (case parse_all p ls of Inl e \<Rightarrow> Inl e | Inr rs \<Rightarrow> Inr (r # rs)))"

text \<open>The columns of a frame built from JSON objects: every key, where first seen.\<close>

definition first_seen :: "string list \<Rightarrow> string list" where
  "first_seen ks = rev (remdups (rev ks))"

definition json_frame :: "(string \<times> 'a) list list \<Rightarrow> 'a frame" where
  "json_frame rows = (first_seen (concat (map (map fst) rows)), rows)"

definition json_chunk :: "('e, 'a, 'b) pandas \<Rightarrow> string list \<Rightarrow> 'e error + 'a frame" where
  "json_chunk P ls =
     (case parse_all (json_line P) ls of
        Inl e \<Rightarrow> Inl (DecodeError e)
      | Inr rows \<Rightarrow> Inr (json_frame rows))"

definition csv_chunk ::
  "('e, 'a, 'b) pandas \<Rightarrow> string list \<Rightarrow> string list \<Rightarrow> 'e error + 'a frame" where
  "csv_chunk P cols ls =
     (case parse_all (csv_row P cols) ls of
        Inl e \<Rightarrow> Inl (DecodeError e)
      | Inr rows \<Rightarrow> Inr (cols, rows))"

text \<open>
  \<^verbatim>\<open>pd.read_json(path, lines=True, chunksize=c)\<close> and \<^verbatim>\<open>pd.read_csv(path, chunksize=c)\<close>:
  the call itself fails on a chunk size below 1, and \<^verbatim>\<open>read_csv\<close> also on a file with
  no header line or an unreadable one; otherwise it returns the iterator, whose items
  are computed (and may fail) one at a time. The lines of a JSON-lines file are its
  non-empty lines; a CSV file of a header and no row yields no record.
\<close>

definition read_json ::
  "('e, 'a, 'b) pandas \<Rightarrow> nat \<Rightarrow> string list \<Rightarrow> 'e error + ('e error + 'a frame) list" where
  "read_json P c ls = (if c = 0 then Inl ValueError else Inr (map (json_chunk P) (chunks c ls)))"

definition read_csv ::
  "('e, 'a, 'b) pandas \<Rightarrow> nat \<Rightarrow> string list \<Rightarrow> 'e error + ('e error + 'a frame) list" where
  "read_csv P c ls =
     (if c = 0 then Inl ValueError
      else case ls of
        [] \<Rightarrow> Inl EmptyDataError
      | h # rows \<Rightarrow>
          (case csv_header P h of
             Inl e \<Rightarrow> Inl (DecodeError e)
           | Inr cols \<Rightarrow> Inr (map (csv_chunk P cols) (chunks c rows))))"

text \<open>
  \<^verbatim>\<open>df.to_json(buffer, orient="records", lines=True)\<close>: one object per row, with every
  column of the frame as a key.
\<close>

definition row_json :: "('e, 'a, 'b) pandas \<Rightarrow> 'a frame \<Rightarrow> (string \<times> 'a) list \<Rightarrow> 'b jrecord" where
  "row_json P df r =
     map (\<lambda>k. (k, json_value P (map (\<lambda>r'. map_of r' k) (snd df)) (map_of r k))) (fst df)"

definition to_json :: "('e, 'a, 'b) pandas \<Rightarrow> 'a frame \<Rightarrow> 'b jrecord list" where
  "to_json P df = map (row_json P df) (snd df)"

section \<open>The state of a run\<close>

text \<open>
  An artifact is a gzip file: the list of its members, one per \<^verbatim>\<open>gzip.open\<close> in append
  mode, each member the text written through that stream, line by line, a line held as
  the object it serialises. \<open>processed_data\<close> is the output directory (\<open>None\<close> when it
  does not exist) with its files by path, \<open>ofile\<close> the text written so far through the
  stream the \<^verbatim>\<open>with\<close> block holds, \<open>stdout\<close> the printed lines.
\<close>

type_synonym 'b artifact = "'b jrecord list list"

record 'b state =
  processed_data :: "(string \<rightharpoonup> 'b artifact) option"
  ofile :: "'b jrecord list"
  stdout :: "string list"

datatype 'e outcome = Done | Raised "'e error"

definition outdir :: string where
  "outdir = ''processed_data''"

text \<open>The two progress lines the cell prints.\<close>

definition writing_line :: "string \<Rightarrow> string" where
  "writing_line name = ''Writing aggregated results out to '' @ name"

definition processing_line :: "string \<Rightarrow> string" where
  "processing_line f = ''Processing file '' @ f"

definition print :: "string \<Rightarrow> 'b state \<Rightarrow> 'b state" where
  "print l s = s\<lparr>stdout := stdout s @ [l]\<rparr>"

definition rmtree :: "'b state \<Rightarrow> 'b state" where
  "rmtree s = s\<lparr>processed_data := None\<rparr>"

definition makedirs :: "'b state \<Rightarrow> 'e outcome \<times> 'b state" where
  "makedirs s =
     (case processed_data s of
        None \<Rightarrow> (Done, s\<lparr>processed_data := Some Map.empty\<rparr>)
      | Some d \<Rightarrow> (Raised FileExistsError, s))"

text \<open>
  \<^verbatim>\<open>gzip.open(name, "ab")\<close> needs the directory; it starts a new member. Leaving the
  \<^verbatim>\<open>with\<close> block closes the stream, on an exception too, which completes the member
  at the end of the file (creating the file if there was none).
\<close>

definition gzip_open :: "string \<Rightarrow> 'b state \<Rightarrow> 'e outcome \<times> 'b state" where
  "gzip_open name s =
     (case processed_data s of
        None \<Rightarrow> (Raised FileNotFoundError, s)
      | Some d \<Rightarrow> (Done, s\<lparr>ofile := []\<rparr>))"

definition gzip_write :: "'b jrecord list \<Rightarrow> 'b state \<Rightarrow> 'b state" where
  "gzip_write ls s = s\<lparr>ofile := ofile s @ ls\<rparr>"

definition members :: "(string \<rightharpoonup> 'b artifact) \<Rightarrow> string \<Rightarrow> 'b artifact" where
  "members d name = (case d name of None \<Rightarrow> [] | Some ms \<Rightarrow> ms)"

definition gzip_close :: "string \<Rightarrow> 'b state \<Rightarrow> 'b state" where
  "gzip_close name s =
     s\<lparr>processed_data := map_option (\<lambda>d. d(name \<mapsto> members d name @ [ofile s])) (processed_data s),
       ofile := []\<rparr>"

section \<open>The conversion loop\<close>

text \<open>The loop \<^verbatim>\<open>for df in df_iterator\<close>: each frame is serialised and written.\<close>

fun write_chunks ::
  "('e, 'a, 'b) pandas \<Rightarrow> ('e error + 'a frame) list \<Rightarrow> 'b state \<Rightarrow> 'e outcome \<times> 'b state" where
  "write_chunks P [] s = (Done, s)"
| "write_chunks P (Inl e # df_iterator) s = (Raised e, s)"
| "write_chunks P (Inr df # df_iterator) s = write_chunks P df_iterator (gzip_write (to_json P df) s)"

definition convert_json ::
  "('e, 'a, 'b) pandas \<Rightarrow> nat \<Rightarrow> string list \<Rightarrow> 'b state \<Rightarrow> 'e outcome \<times> 'b state" where
  "convert_json P c ls s =
     (case read_json P c ls of
        Inl e \<Rightarrow> (Raised e, s)
      | Inr df_iterator \<Rightarrow> write_chunks P df_iterator s)"

definition convert_csv ::
  "('e, 'a, 'b) pandas \<Rightarrow> nat \<Rightarrow> string list \<Rightarrow> 'b state \<Rightarrow> 'e outcome \<times> 'b state" where
  "convert_csv P c ls s =
     (case read_csv P c ls of
        Inl e \<Rightarrow> (Raised e, s)
      | Inr df_iterator \<Rightarrow> write_chunks P df_iterator s)"

text \<open>The body of \<^verbatim>\<open>for f in files\<close>: two tests of the extension, one after the other.\<close>

definition process_file ::
  "('e, 'a, 'b) pandas \<Rightarrow> nat \<Rightarrow> src_file \<Rightarrow> 'b state \<Rightarrow> 'e outcome \<times> 'b state" where
  "process_file P c f s =
     (let s1 = print (processing_line (fst f)) s;
          extenstion = snd (splitext (fst f))
      in case (if extenstion = ''.json'' then convert_json P c (snd f) s1 else (Done, s1)) of
           (Raised e, s2) \<Rightarrow> (Raised e, s2)
         | (Done, s2) \<Rightarrow>
             (if extenstion = ''.csv'' then convert_csv P c (snd f) s2 else (Done, s2)))"

fun process_files ::
  "('e, 'a, 'b) pandas \<Rightarrow> nat \<Rightarrow> src_file list \<Rightarrow> 'b state \<Rightarrow> 'e outcome \<times> 'b state" where
  "process_files P c [] s = (Done, s)"
| "process_files P c (f # fs) s =
     (case process_file P c f s of
        (Raised e, s') \<Rightarrow> (Raised e, s')
      | (Done, s') \<Rightarrow> process_files P c fs s')"

definition outfile_name :: "string \<Rightarrow> string" where
  "outfile_name root = path_join outdir (basename root @ ''.json.gz'')"

text \<open>The body of the loop over \<^verbatim>\<open>os.walk\<close>.\<close>

definition visit ::
  "('e, 'a, 'b) pandas \<Rightarrow> nat \<Rightarrow> entry \<Rightarrow> 'b state \<Rightarrow> 'e outcome \<times> 'b state" where
  "visit P c en s =
     (case en of (root, dirs, fs) \<Rightarrow>
        if dirs \<noteq> [] then (Done, s)
        else
          (let s1 = print (writing_line (outfile_name root)) s
           in case gzip_open (outfile_name root) s1 of
                (Raised e, s2) \<Rightarrow> (Raised e, s2)
              | (Done, s2) \<Rightarrow>
                  (case process_files P c fs s2 of
                     (r, s3) \<Rightarrow> (r, gzip_close (outfile_name root) s3))))"

fun walk_loop ::
  "('e, 'a, 'b) pandas \<Rightarrow> nat \<Rightarrow> entry list \<Rightarrow> 'b state \<Rightarrow> 'e outcome \<times> 'b state" where
  "walk_loop P c [] s = (Done, s)"
| "walk_loop P c (en # ens) s =
     (case visit P c en s of
        (Raised e, s') \<Rightarrow> (Raised e, s')
      | (Done, s') \<Rightarrow> walk_loop P c ens s')"

text \<open>The setup: the output directory is removed if it is there, and made anew.\<close>

definition setup_outdir :: "'b state \<Rightarrow> 'e outcome \<times> 'b state" where
  "setup_outdir s = makedirs (if processed_data s \<noteq> None then rmtree s else s)"

definition convert ::
  "('e, 'a, 'b) pandas \<Rightarrow> nat \<Rightarrow> dirtree \<Rightarrow> 'b state \<Rightarrow> 'e outcome \<times> 'b state" where
  "convert P c raw_data s =
     (case setup_outdir s of
        (Raised e, s') \<Rightarrow> (Raised e, s')
      | (Done, s') \<Rightarrow> walk_loop P c (os_walk ''./raw_data'' raw_data) s')"

text \<open>The cell as written: the chunk size is 1000.\<close>

definition notebook_cell ::
  "('e, 'a, 'b) pandas \<Rightarrow> dirtree \<Rightarrow> 'b state \<Rightarrow> 'e outcome \<times> 'b state" where
  "notebook_cell P = convert P 1000"

text \<open>Reading an artifact back decompresses every member, one after the other.\<close>

definition decompress :: "'b state \<Rightarrow> string \<Rightarrow> 'b jrecord list option" where
  "decompress s name =
     (case processed_data s of None \<Rightarrow> None | Some d \<Rightarrow> map_option concat (d name))"

section \<open>What a run writes, as a function of its input\<close>

text \<open>
  The loops only append to the open stream and to the standard output, so what they
  append is a function of the files alone. \<open>chunks_out\<close>, \<open>file_out\<close>, \<open>files_out\<close> and
  \<open>walk_out\<close> give, for each loop, the outcome together with the text written and the
  lines printed; \<open>walk_out\<close> lists the members completed, each with the path of its
  artifact.
\<close>

definition emit :: "'b jrecord list \<Rightarrow> string list \<Rightarrow> 'b state \<Rightarrow> 'b state" where
  "emit ls log s = s\<lparr>ofile := ofile s @ ls, stdout := stdout s @ log\<rparr>"

fun chunks_out ::
  "('e, 'a, 'b) pandas \<Rightarrow> ('e error + 'a frame) list \<Rightarrow> 'e outcome \<times> 'b jrecord list" where
  "chunks_out P [] = (Done, [])"
| "chunks_out P (Inl e # it) = (Raised e, [])"
| "chunks_out P (Inr df # it) = (case chunks_out P it of (r, ls) \<Rightarrow> (r, to_json P df @ ls))"

definition reader_out ::
  "('e, 'a, 'b) pandas \<Rightarrow> 'e error + ('e error + 'a frame) list \<Rightarrow> 'e outcome \<times> 'b jrecord list" where
  "reader_out P rd = (case rd of Inl e \<Rightarrow> (Raised e, []) | Inr it \<Rightarrow> chunks_out P it)"

text \<open>The iterator the extension of a file selects; none for any other extension.\<close>

definition file_frames ::
  "('e, 'a, 'b) pandas \<Rightarrow> nat \<Rightarrow> src_file \<Rightarrow> 'e error + ('e error + 'a frame) list" where
  "file_frames P c f =
     (if snd (splitext (fst f)) = ''.json'' then read_json P c (snd f)
      else if snd (splitext (fst f)) = ''.csv'' then read_csv P c (snd f)
      else Inr [])"

definition file_out ::
  "('e, 'a, 'b) pandas \<Rightarrow> nat \<Rightarrow> src_file \<Rightarrow> 'e outcome \<times> 'b jrecord list" where
  "file_out P c f = reader_out P (file_frames P c f)"

fun files_out ::
  "('e, 'a, 'b) pandas \<Rightarrow> nat \<Rightarrow> src_file list \<Rightarrow>
     'e outcome \<times> 'b jrecord list \<times> string list" where
  "files_out P c [] = (Done, [], [])"
| "files_out P c (f # fs) =
     (case file_out P c f of
        (Raised e, ls) \<Rightarrow> (Raised e, ls, [processing_line (fst f)])
      | (Done, ls) \<Rightarrow>
          (case files_out P c fs of
             (r, ls', log) \<Rightarrow> (r, ls @ ls', processing_line (fst f) # log)))"

text \<open>A leaf directory: \<^verbatim>\<open>dirs\<close> is empty.\<close>

definition leaf :: "entry \<Rightarrow> bool" where
  "leaf en = (fst (snd en) = [])"

definition commit ::
  "(string \<rightharpoonup> 'b artifact) \<Rightarrow> (string \<times> 'b jrecord list) list \<Rightarrow> (string \<rightharpoonup> 'b artifact)" where
  "commit d cs =
     (\<lambda>n. if map snd (filter (\<lambda>nm. fst nm = n) cs) = [] then d n
          else Some (members d n @ map snd (filter (\<lambda>nm. fst nm = n) cs)))"

fun walk_out ::
  "('e, 'a, 'b) pandas \<Rightarrow> nat \<Rightarrow> entry list \<Rightarrow>
     'e outcome \<times> (string \<times> 'b jrecord list) list \<times> string list" where
  "walk_out P c [] = (Done, [], [])"
| "walk_out P c (en # ens) =
     (if \<not> leaf en then walk_out P c ens
      else
        (case files_out P c (snd (snd en)) of
           (Raised e, ls, log) \<Rightarrow>
             (Raised e, [(outfile_name (fst en), ls)],
              writing_line (outfile_name (fst en)) # log)
         | (Done, ls, log) \<Rightarrow>
             (case walk_out P c ens of
                (r, cs, log') \<Rightarrow>
                  (r, (outfile_name (fst en), ls) # cs,
                   writing_line (outfile_name (fst en)) # log @ log'))))"

section \<open>The expected content of an artifact\<close>

text \<open>
  A file is recognized by its extension. Its records are the rows of its frames, in the
  order of the frames and, in a frame, of the rows; the records of a subject are those of
  its recognized files in the order of the file list; the subjects of an artifact are
  the leaf directories, in the order of the traversal, whose name gives its path.
\<close>

definition recognized :: "src_file \<Rightarrow> bool" where
  "recognized f = (snd (splitext (fst f)) = ''.json'' \<or> snd (splitext (fst f)) = ''.csv'')"

definition frames_of :: "('e error + 'a frame) list \<Rightarrow> 'a frame list" where
  "frames_of it = concat (map (\<lambda>x. case x of Inl e \<Rightarrow> [] | Inr df \<Rightarrow> [df]) it)"

definition file_records :: "('e, 'a, 'b) pandas \<Rightarrow> nat \<Rightarrow> src_file \<Rightarrow> 'b jrecord list" where
  "file_records P c f =
     (case file_frames P c f of
        Inl e \<Rightarrow> []
      | Inr it \<Rightarrow> concat (map (to_json P) (frames_of it)))"

definition subject_records ::
  "('e, 'a, 'b) pandas \<Rightarrow> nat \<Rightarrow> src_file list \<Rightarrow> 'b jrecord list" where
  "subject_records P c fs = concat (map (file_records P c) (filter recognized fs))"

definition subjects :: "dirtree \<Rightarrow> string \<Rightarrow> entry list" where
  "subjects t n =
     filter (\<lambda>en. leaf en \<and> outfile_name (fst en) = n) (os_walk ''./raw_data'' t)"



section \<open>The rows of the source\<close>

text \<open>
  The rows of a file, decoded in one piece, whatever the chunk size: \<open>file_rows\<close> fails
  as the reader does; \<open>subject_rows\<close> and \<open>source_rows\<close> collect the rows of the files
  of a subject and of the subjects of an artifact. An output record renders a row when
  it is the object \<open>row_json\<close> makes of that row in some frame that holds it.
  \<open>lift_chunk\<close> is the common shape of \<open>json_chunk\<close> and \<open>csv_chunk\<close>.
\<close>

definition lift_chunk ::
  "((string \<times> 'a) list list \<Rightarrow> 'a frame) \<Rightarrow> 'e + (string \<times> 'a) list list \<Rightarrow> 'e error + 'a frame" where
  "lift_chunk mk x = (case x of Inl e \<Rightarrow> Inl (DecodeError e) | Inr rows \<Rightarrow> Inr (mk rows))"





text \<open>The directory reached from the root of the tree by a list of names.\<close>

fun subtree :: "dirtree \<Rightarrow> string list \<Rightarrow> dirtree option" where
  "subtree t [] = Some t"
| "subtree (Dir ds fs) (n # ns) =
     (case map_of ds n of None \<Rightarrow> None | Some t' \<Rightarrow> subtree t' ns)"

section \<open>A small decoder and sample trees\<close>

text \<open>
  A decoder to run the model on: a JSON line is looked up in a table of the lines the
  samples use (anything else is rejected with the message of the JSON parser), a CSV
  line is cut at the commas, and a cell is serialised as its text, an absent one as
  \<^verbatim>\<open>null\<close>, a whole number in a column that has an absent cell as a float (the
  column is then of type float64).
\<close>

definition whole_number :: "string \<Rightarrow> bool" where
  "whole_number x = (x \<noteq> [] \<and> list_all (\<lambda>ch. ch \<in> set ''0123456789'') x)"

definition demo_json_value :: "string option list \<Rightarrow> string option \<Rightarrow> string" where
  "demo_json_value col v =
     (case v of
        None \<Rightarrow> ''null''
      | Some x \<Rightarrow> if None \<in> set col \<and> whole_number x then x @ ''.0'' else x)"

definition demo_json_line :: \<open>string \<Rightarrow> string + (string \<times> string) list\<close> where
  \<open>demo_json_line l =
     (if l = ''{"a":1}'' then Inr [(''a'', ''1'')]
      else if l = ''{"b":2}'' then Inr [(''b'', ''2'')]
      else if l = ''{"a":3}'' then Inr [(''a'', ''3'')]
      else Inl ''Expected object or value'')\<close>

fun split_commas :: "string \<Rightarrow> string list" where
  "split_commas [] = [[]]"
| "split_commas (ch # l) =
     (if ch = CHR '','' then [] # split_commas l
      else (case split_commas l of [] \<Rightarrow> [[ch]] | w # ws \<Rightarrow> (ch # w) # ws))"

definition demo :: "(string, string, string) pandas" where
  "demo =
     \<lparr> json_line = demo_json_line,
       csv_header = (\<lambda>l. Inr (split_commas l)),
       csv_row = (\<lambda>cols l.
         if length cols < length (split_commas l) then Inl ''Error tokenizing data''
         else Inr (zip cols (split_commas l))),
       json_value = demo_json_value \<rparr>"

definition fresh :: "string state" where
  "fresh = \<lparr> processed_data = None, ofile = [], stdout = [] \<rparr>"

definition stale :: "string state" where
  "stale =
     \<lparr> processed_data = Some [''processed_data/tracks.json.gz'' \<mapsto> [[[(''z'', ''9'')]]]],
       ofile = [], stdout = [] \<rparr>"

definition tracks_tree :: dirtree where
  \<open>tracks_tree =
     Dir [(''tracks'',
           Dir [] [(''tracks_1.json'', [''{"a":1}'', ''{"b":2}'']),
                   (''tracks_0.csv'', [''id,name'', ''1,x'', ''2,y'', ''3,z''])])] []\<close>

definition nested_tree :: dirtree where
  \<open>nested_tree =
     Dir [(''tracks'', Dir [] [(''tracks_0.csv'', [''id,name'', ''1,x''])]),
          (''archive'',
           Dir [(''2020'', Dir [(''tracks'', Dir [] [(''old.json'', [''{"a":3}''])])] [])]
               [(''stray.json'', [''{"a":1}''])])] []\<close>





section \<open>The loops in terms of what they write\<close>

lemma emit_emit [simp]: "emit ls' log' (emit ls log s) = emit (ls @ ls') (log @ log') s"
  by (simp add: emit_def)

lemma emit_Nil [simp]: "emit [] [] s = s"
  by (simp add: emit_def)

lemma print_emit: "print l s = emit [] [l] s"
  by (simp add: print_def emit_def)

lemma gzip_write_emit: "gzip_write ls s = emit ls [] s"
  by (simp add: gzip_write_def emit_def)

lemma write_chunks_out:
  "write_chunks P it s = (fst (chunks_out P it), emit (snd (chunks_out P it)) [] s)"
  by (induction P it s rule: write_chunks.induct)
     (simp_all add: gzip_write_emit split: prod.splits)

lemma process_file_out:
  "process_file P c f s =
     (fst (file_out P c f), emit (snd (file_out P c f)) [processing_line (fst f)] s)"
  by (auto simp: process_file_def file_out_def file_frames_def reader_out_def convert_json_def
      convert_csv_def write_chunks_out print_emit Let_def split: sum.splits prod.splits outcome.splits)

lemma process_files_out:
  "process_files P c fs s =
     (fst (files_out P c fs), emit (fst (snd (files_out P c fs))) (snd (snd (files_out P c fs))) s)"
  by (induction fs arbitrary: s)
     (auto simp: process_file_out split: prod.splits outcome.splits)

lemma commit_Nil: "commit d [] = d"
  by (simp add: commit_def)

lemma commit_Cons: "commit d ((n, m) # cs) = commit (d(n \<mapsto> members d n @ [m])) cs"
  by (auto simp: commit_def members_def fun_eq_iff)

lemma visit_not_leaf: "\<not> leaf en \<Longrightarrow> visit P c en s = (Done, s)"
  by (cases en) (simp add: visit_def leaf_def)

lemma visit_leaf:
  assumes "leaf en" and "processed_data s = Some d"
  shows "visit P c en s =
     (fst (files_out P c (snd (snd en))),
      \<lparr>processed_data =
         Some (d(outfile_name (fst en) \<mapsto>
                 members d (outfile_name (fst en)) @ [fst (snd (files_out P c (snd (snd en))))])),
       ofile = [],
       stdout = stdout s @ writing_line (outfile_name (fst en))
                  # snd (snd (files_out P c (snd (snd en))))\<rparr>)"
  using assms
  by (cases en)
     (simp add: visit_def leaf_def gzip_open_def gzip_close_def print_def process_files_out
        emit_def)

lemma visit_no_outdir:
  assumes "leaf en" and "processed_data s = None"
  shows "visit P c en s =
     (Raised FileNotFoundError, print (writing_line (outfile_name (fst en))) s)"
  using assms
  by (cases en) (simp add: visit_def leaf_def gzip_open_def print_def)

lemma walk_loop_out:
  assumes "processed_data s = Some d"
  shows "fst (walk_loop P c ens s) = fst (walk_out P c ens) \<and>
         processed_data (snd (walk_loop P c ens s)) =
           Some (commit d (fst (snd (walk_out P c ens)))) \<and>
         stdout (snd (walk_loop P c ens s)) = stdout s @ snd (snd (walk_out P c ens))"
  using assms
proof (induction ens arbitrary: s d)
  case Nil
  then show ?case by (simp add: commit_Nil)
next
  case (Cons en ens)
  show ?case
  proof (cases "leaf en")
    case False
    then show ?thesis using Cons by (simp add: visit_not_leaf)
  next
    case True
    obtain r ls log where fo: "files_out P c (snd (snd en)) = (r, ls, log)"
      by (cases "files_out P c (snd (snd en))") auto
    let ?n = "outfile_name (fst en)"
    let ?s' = "\<lparr>processed_data = Some (d(?n \<mapsto> members d ?n @ [ls])), ofile = [],
               stdout = stdout s @ writing_line ?n # log\<rparr>"
    have v: "visit P c en s = (r, ?s')"
      using visit_leaf [OF True Cons.prems, of P c] fo by simp
    show ?thesis
    proof (cases r)
      case Done
      let ?d' = "d(?n \<mapsto> members d ?n @ [ls])"
      have pd: "processed_data ?s' = Some ?d'" by simp
      note ih = Cons.IH [of ?s' ?d', OF pd]
      have wl: "walk_loop P c (en # ens) s = walk_loop P c ens ?s'"
        using v Done by simp
      have wo: "walk_out P c (en # ens) =
                  (fst (walk_out P c ens), (?n, ls) # fst (snd (walk_out P c ens)),
                   writing_line ?n # log @ snd (snd (walk_out P c ens)))"
        using True fo Done by (simp split: prod.splits)
      have a: "fst (walk_loop P c ens ?s') = fst (walk_out P c ens)"
        using ih by blast
      have b: "processed_data (snd (walk_loop P c ens ?s')) =
                 Some (commit ?d' (fst (snd (walk_out P c ens))))"
        using ih by blast
      have e: "stdout (snd (walk_loop P c ens ?s')) = stdout ?s' @ snd (snd (walk_out P c ens))"
        using ih by blast
      show ?thesis
        unfolding wl wo by (simp add: a b e commit_Cons)
    next
      case (Raised e)
      then show ?thesis using v fo True by (simp add: commit_Cons commit_Nil fun_eq_iff)
    qed
  qed
qed

lemma setup_outdir_eq: "setup_outdir s = (Done, s\<lparr>processed_data := Some Map.empty\<rparr>)"
  by (simp add: setup_outdir_def makedirs_def rmtree_def split: option.splits)

lemma convert_out:
  "fst (convert P c t s) = fst (walk_out P c (os_walk ''./raw_data'' t)) \<and>
   processed_data (snd (convert P c t s)) =
     Some (commit Map.empty (fst (snd (walk_out P c (os_walk ''./raw_data'' t))))) \<and>
   stdout (snd (convert P c t s)) = stdout s @ snd (snd (walk_out P c (os_walk ''./raw_data'' t)))"
  using walk_loop_out [of "s\<lparr>processed_data := Some Map.empty\<rparr>" Map.empty P c
      "os_walk ''./raw_data'' t"]
  by (simp add: convert_def setup_outdir_eq)

lemma members_commit:
  "members (commit d cs) n = members d n @ map snd (filter (\<lambda>nm. fst nm = n) cs)"
  by (auto simp: commit_def members_def)

lemma commit_None: "commit d cs n = None \<longleftrightarrow> d n = None \<and> n \<notin> fst ` set cs"
  by (auto simp: commit_def filter_empty_conv)

lemma dom_commit: "dom (commit d cs) = dom d \<union> fst ` set cs"
  using commit_None [of d cs] by (auto simp: dom_def)

section \<open>Runs that complete\<close>

lemma chunks_out_Done:
  "fst (chunks_out P it) = Done \<Longrightarrow> snd (chunks_out P it) = concat (map (to_json P) (frames_of it))"
  by (induction P it rule: chunks_out.induct) (auto simp: frames_of_def split: prod.splits)

lemma file_out_Done:
  "fst (file_out P c f) = Done \<Longrightarrow> snd (file_out P c f) = file_records P c f"
  by (auto simp: file_out_def reader_out_def file_records_def chunks_out_Done split: sum.splits)

lemma file_out_unrecognized: "\<not> recognized f \<Longrightarrow> file_out P c f = (Done, [])"
  by (simp add: recognized_def file_out_def file_frames_def reader_out_def)

lemma file_records_unrecognized: "\<not> recognized f \<Longrightarrow> file_records P c f = []"
  by (simp add: recognized_def file_records_def file_frames_def frames_of_def)

lemma files_out_Done:
  "fst (files_out P c fs) = Done \<Longrightarrow>
     fst (snd (files_out P c fs)) = subject_records P c fs \<and>
     snd (snd (files_out P c fs)) = map (\<lambda>f. processing_line (fst f)) fs"
proof (induction fs)
  case Nil
  then show ?case by (simp add: subject_records_def)
next
  case (Cons f fs)
  obtain r ls where fo: "file_out P c f = (r, ls)" by (cases "file_out P c f")
  with Cons.prems have r: "r = Done" by (auto split: outcome.splits prod.splits)
  with fo Cons.prems have d: "fst (files_out P c fs) = Done" by (auto split: prod.splits)
  have ls: "ls = file_records P c f" using file_out_Done [of P c f] fo r by simp
  have "file_records P c f @ subject_records P c fs = subject_records P c (f # fs)"
    by (simp add: subject_records_def file_records_unrecognized)
  then show ?case using Cons.IH [OF d] fo r ls
    by (cases "files_out P c fs") auto
qed

lemma walk_out_Done:
  "fst (walk_out P c ens) = Done \<Longrightarrow>
     fst (snd (walk_out P c ens)) =
       map (\<lambda>en. (outfile_name (fst en), subject_records P c (snd (snd en)))) (filter leaf ens)"
proof (induction ens)
  case Nil
  then show ?case by simp
next
  case (Cons en ens)
  show ?case
  proof (cases "leaf en")
    case False
    then show ?thesis using Cons by simp
  next
    case True
    obtain r ls log where fo: "files_out P c (snd (snd en)) = (r, ls, log)"
      by (cases "files_out P c (snd (snd en))") auto
    with Cons.prems True have r: "r = Done" by (auto split: outcome.splits prod.splits)
    with fo Cons.prems True have d: "fst (walk_out P c ens) = Done" by (auto split: prod.splits)
    have ls: "ls = subject_records P c (snd (snd en))"
      using files_out_Done [of P c "snd (snd en)"] fo r by simp
    show ?thesis using Cons.IH [OF d] fo r ls True
      by (cases "walk_out P c ens") auto
  qed
qed

lemma walk_out_names:
  "fst ` set (fst (snd (walk_out P c ens))) \<subseteq> set (map (\<lambda>en. outfile_name (fst en)) (filter leaf ens))"
proof (induction ens)
  case Nil
  then show ?case by simp
next
  case (Cons en ens)
  obtain r cs log where wo: "walk_out P c ens = (r, cs, log)"
    by (cases "walk_out P c ens") auto
  obtain r' ls log' where fo: "files_out P c (snd (snd en)) = (r', ls, log')"
    by (cases "files_out P c (snd (snd en))") auto
  from Cons wo have "fst ` set cs \<subseteq> set (map (\<lambda>en. outfile_name (fst en)) (filter leaf ens))"
    by simp
  then show ?case using wo fo by (cases r') (auto simp: image_iff)
qed



section \<open>Paths of the traversal\<close>

lemma no_slash_basename: "CHR ''/'' \<notin> set (basename p)"
  by (auto simp: basename_def dest: set_takeWhileD)

lemma outfile_name_eq: "outfile_name root = ''processed_data/'' @ basename root @ ''.json.gz''"
proof -
  have "hd (basename root @ ''.json.gz'') \<noteq> CHR ''/''"
    using no_slash_basename [of root] by (cases "basename root") auto
  then show ?thesis by (simp add: outfile_name_def path_join_def outdir_def)
qed

lemma basename_path_join:
  assumes "CHR ''/'' \<notin> set n"
  shows "basename (path_join a n) = n"
proof -
  have tw: "takeWhile (\<lambda>ch. ch \<noteq> CHR ''/'') (rev n @ xs) = rev n @ takeWhile (\<lambda>ch. ch \<noteq> CHR ''/'') xs" for xs
    using assms by (intro takeWhile_append2) auto
  have hd: "(n \<noteq> [] \<and> hd n = CHR ''/'') = False"
    using assms by (cases n) auto
  have own: "takeWhile (\<lambda>ch. ch \<noteq> CHR ''/'') (rev n) = rev n"
    using tw [of "[]"] by simp
  show ?thesis
  proof (cases "a = [] \<or> last a = CHR ''/''")
    case True
    then have "takeWhile (\<lambda>ch. ch \<noteq> CHR ''/'') (rev a) = []"
      by (cases a rule: rev_cases) auto
    then show ?thesis using True by (auto simp: path_join_def basename_def tw hd own)
  next
    case False
    then show ?thesis by (simp add: path_join_def basename_def tw hd)
  qed
qed

lemma basename_descend:
  "ns \<noteq> [] \<Longrightarrow> CHR ''/'' \<notin> set (last ns) \<Longrightarrow> basename (foldl path_join p ns) = last ns"
  by (induction ns arbitrary: p rule: rev_induct) (simp_all add: basename_path_join)

lemma os_walk_self: "(p, map fst (subdirs t), files t) \<in> set (os_walk p t)"
  by (cases t) simp

lemma os_walk_subtree:
  "subtree t ns = Some (Dir ds fs) \<Longrightarrow> (foldl path_join p ns, map fst ds, fs) \<in> set (os_walk p t)"
proof (induction ns arbitrary: t p)
  case Nil
  then show ?case by simp
next
  case (Cons n ns)
  obtain ds' fs' where t: "t = Dir ds' fs'" by (cases t)
  with Cons.prems obtain t' where m: "map_of ds' n = Some t'" and st: "subtree t' ns = Some (Dir ds fs)"
    by (auto split: option.splits)
  from m have mem: "(n, t') \<in> set ds'" by (rule map_of_SomeD)
  from Cons.IH [OF st, of "path_join p n"]
  have "(foldl path_join (path_join p n) ns, map fst ds, fs) \<in> set (os_walk (path_join p n) t')" .
  with mem show ?case unfolding t by (auto intro!: bexI [of _ "(n, t')"])
qed

lemma files_out_skip:
  assumes "\<not> recognized f"
  shows "fst (files_out P c (fs1 @ f # fs2)) = fst (files_out P c (fs1 @ fs2)) \<and>
         fst (snd (files_out P c (fs1 @ f # fs2))) = fst (snd (files_out P c (fs1 @ fs2)))"
proof (induction fs1)
  case Nil
  show ?case using file_out_unrecognized [OF assms, of P c]
    by (cases "files_out P c fs2") simp
next
  case (Cons g fs1)
  obtain r ls where fo: "file_out P c g = (r, ls)" by (cases "file_out P c g")
  show ?case using Cons fo
    by (cases r; cases "files_out P c (fs1 @ f # fs2)"; cases "files_out P c (fs1 @ fs2)") auto
qed

lemma nested_run: "fst (convert demo 1000 nested_tree fresh) = Done"
  by code_simp

section \<open>Chunks\<close>

lemma chunks_Nil [simp]: "chunks n [] = []"
  by simp

lemma chunks_step: "0 < n \<Longrightarrow> xs \<noteq> [] \<Longrightarrow> chunks n xs = take n xs # chunks n (drop n xs)"
  by simp

declare chunks.simps [simp del]


lemma parse_all_eq_Inr: "parse_all p ls = Inr rs \<longleftrightarrow> map p ls = map Inr rs"
proof (induction ls arbitrary: rs)
  case Nil
  then show ?case by auto
next
  case (Cons l ls)
  show ?case
  proof (cases "p l")
    case (Inl e)
    then show ?thesis by (cases rs) auto
  next
    case (Inr r)
    show ?thesis
    proof (cases "parse_all p ls")
      case (Inl e)
      then have "map p ls \<noteq> map Inr rs'" for rs' using Cons.IH [of rs'] by simp
      then show ?thesis using Inl Inr by (cases rs) auto
    next
      case r2: (Inr rs2)
      then have "map p ls = map Inr rs2" using Cons.IH [of rs2] by simp
      then show ?thesis using r2 Inr by (cases rs) (auto simp: inj_map_eq_map [OF inj_Inr [of UNIV]])
    qed
  qed
qed

lemma parse_all_take: "parse_all p ls = Inr rs \<Longrightarrow> parse_all p (take n ls) = Inr (take n rs)"
  by (simp add: parse_all_eq_Inr take_map [symmetric])

lemma parse_all_drop: "parse_all p ls = Inr rs \<Longrightarrow> parse_all p (drop n ls) = Inr (drop n rs)"
  by (simp add: parse_all_eq_Inr drop_map [symmetric])

lemma parse_all_length: "parse_all p ls = Inr rs \<Longrightarrow> length rs = length ls"
  using map_eq_imp_length_eq [of p ls Inr rs] by (simp add: parse_all_eq_Inr)



lemma chunks_parse_ok:
  "parse_all p ls = Inr rs \<Longrightarrow> map (parse_all p) (chunks c ls) = map Inr (chunks c rs)"
proof (induction c ls arbitrary: rs rule: chunks.induct)
  case (1 n xs)
  show ?case
  proof (cases "n = 0 \<or> xs = []")
    case True
    then show ?thesis using "1.prems" parse_all_length [OF "1.prems"]
      by (auto simp: chunks.simps [of 0])
  next
    case False
    then have ne: "rs \<noteq> []" using parse_all_length [OF "1.prems"] by auto
    have ih: "map (parse_all p) (chunks n (drop n xs)) = map Inr (chunks n (drop n rs))"
      using "1.IH" [OF False parse_all_drop [OF "1.prems"]] .
    show ?thesis using False ne ih parse_all_take [OF "1.prems", of n]
      by (simp add: chunks_step)
  qed
qed



lemma chunks_out_ok: "chunks_out P (map Inr dfs) = (Done, concat (map (to_json P) dfs))"
  by (induction dfs) simp_all


lemma lifted_ok:
  assumes "parse_all p ls = Inr rs"
  shows "chunks_out P (map (\<lambda>ch. lift_chunk mk (parse_all p ch)) (chunks c ls)) =
           (Done, concat (map (\<lambda>ch. to_json P (mk ch)) (chunks c rs)))"
proof -
  have "map (\<lambda>ch. lift_chunk mk (parse_all p ch)) (chunks c ls) =
        map (lift_chunk mk) (map (parse_all p) (chunks c ls))"
    by simp
  also have "\<dots> = map Inr (map mk (chunks c rs))"
    unfolding chunks_parse_ok [OF assms] by (simp add: lift_chunk_def)
  finally have eq: "map (\<lambda>ch. lift_chunk mk (parse_all p ch)) (chunks c ls) =
      map Inr (map mk (chunks c rs))" .
  show ?thesis unfolding eq chunks_out_ok by (simp add: o_def)
qed


lemma json_chunk_lift: "json_chunk P = (\<lambda>ch. lift_chunk json_frame (parse_all (json_line P) ch))"
  by (simp add: json_chunk_def lift_chunk_def fun_eq_iff)

lemma csv_chunk_lift:
  "csv_chunk P cols = (\<lambda>ch. lift_chunk (Pair cols) (parse_all (csv_row P cols) ch))"
  by (simp add: csv_chunk_def lift_chunk_def fun_eq_iff)










section \<open>Runs that fail\<close>






section \<open>A tree with one subject\<close>

lemma json_file_ok:
  assumes "0 < c" and "snd (splitext name) = ''.json''" and "parse_all (json_line P) ls = Inr rows"
  shows "file_out P c (name, ls) =
           (Done, concat (map (\<lambda>ch. to_json P (json_frame ch)) (chunks c rows)))"
  using assms lifted_ok [OF assms(3), of P json_frame c]
  by (simp add: file_out_def file_frames_def read_json_def reader_out_def json_chunk_lift)

lemma csv_file_ok:
  assumes "0 < c" and "snd (splitext name) = ''.csv''" and "csv_header P h = Inr cols"
    and "parse_all (csv_row P cols) ls = Inr rows"
  shows "file_out P c (name, h # ls) =
           (Done, concat (map (\<lambda>ch. to_json P (cols, ch)) (chunks c rows)))"
proof -
  have ne: "snd (splitext name) \<noteq> ''.json''" using assms(2) by simp
  show ?thesis
    using assms ne lifted_ok [OF assms(4), of P "Pair cols" c]
    by (simp add: file_out_def file_frames_def read_csv_def reader_out_def csv_chunk_lift)
qed

lemma to_json_keys: "map (map fst) (to_json P df) = map (\<lambda>r. fst df) (snd df)"
  by (simp add: to_json_def row_json_def o_def)

lemma single_subject_run:
  assumes "fst (files_out P c fs) = Done"
  shows "fst (convert P c (Dir [(nm, Dir [] fs)] []) s) = Done \<and>
         decompress (snd (convert P c (Dir [(nm, Dir [] fs)] []) s))
           (outfile_name (path_join ''./raw_data'' nm)) = Some (fst (snd (files_out P c fs)))"
proof -
  obtain ls log where fo: "files_out P c fs = (Done, ls, log)"
    using assms by (cases "files_out P c fs") auto
  have wo: "walk_out P c (os_walk ''./raw_data'' (Dir [(nm, Dir [] fs)] [])) =
      (Done, [(outfile_name (path_join ''./raw_data'' nm), ls)],
       writing_line (outfile_name (path_join ''./raw_data'' nm)) # log)"
    using fo by (simp add: leaf_def)
  note co = convert_out [of P c "Dir [(nm, Dir [] fs)] []" s, unfolded wo]
  show ?thesis
    using co fo by (simp add: decompress_def commit_def members_def)
qed

section \<open>Idempotence of a run\<close>

text \<open>
  C4. Two runs on the same source tree with the same chunk size end the same way and
  leave the same output directory, whatever the output directory held before each of
  them: the setup removes it and makes it anew. In particular a second run, started on
  what the first one left, gives for every artifact the same decompressed records.
\<close>

theorem rerun_idempotent:
  "fst (convert P c t s1) = fst (convert P c t s2) \<and>
   processed_data (snd (convert P c t s1)) = processed_data (snd (convert P c t s2)) \<and>
   decompress (snd (convert P c t (snd (convert P c t s1)))) n =
     decompress (snd (convert P c t s1)) n"
  by (simp add: convert_out decompress_def)

theorem rerun_idempotent_witness:
  "processed_data (snd (convert demo 1000 tracks_tree stale)) =
     processed_data (snd (convert demo 1000 tracks_tree fresh))"
  using rerun_idempotent [of demo 1000 tracks_tree stale fresh] by blast

section \<open>Content and order of an artifact\<close>



section \<open>Leaf directories\<close>

text \<open>
  C5. When a run completes, the artifacts in the output directory are exactly those of
  the leaf directories of the tree, each at \<^verbatim>\<open>processed_data/<basename>.json.gz\<close>;
  visiting a directory that has subdirectories changes nothing, whatever files it holds;
  and in every run, completed or not, every artifact is that of a leaf directory.
\<close>

theorem artifacts_for_leaves_only:
  fixes P :: "('e, 'a, 'b) pandas"
  assumes "convert P c t s = (Done, s')"
  shows "(\<exists>d. processed_data s' = Some d \<and>
              dom d = set (map (\<lambda>en. outfile_name (fst en)) (filter leaf (os_walk ''./raw_data'' t)))) \<and>
         (\<forall>root. outfile_name root = ''processed_data/'' @ basename root @ ''.json.gz'') \<and>
         (\<forall>en s0. \<not> leaf en \<longrightarrow> visit P c en s0 = (Done, s0)) \<and>
         (\<forall>s0 d. processed_data (snd (convert P c t s0)) = Some d \<longrightarrow>
            dom d \<subseteq> set (map (\<lambda>en. outfile_name (fst en)) (filter leaf (os_walk ''./raw_data'' t))))"
proof (intro conjI allI impI)
  let ?ens = "os_walk ''./raw_data'' t"
  from assms have d: "fst (walk_out P c ?ens) = Done"
    using convert_out [of P c t s] by simp
  have "processed_data s' = Some (commit Map.empty (fst (snd (walk_out P c ?ens))))"
    using convert_out [of P c t s] assms by simp
  moreover have "dom (commit Map.empty (fst (snd (walk_out P c ?ens)))) =
      set (map (\<lambda>en. outfile_name (fst en)) (filter leaf ?ens))"
    by (simp add: dom_commit walk_out_Done [OF d] image_image)
  ultimately show "\<exists>d. processed_data s' = Some d \<and>
      dom d = set (map (\<lambda>en. outfile_name (fst en)) (filter leaf ?ens))"
    by blast
next
  fix root show "outfile_name root = ''processed_data/'' @ basename root @ ''.json.gz''"
    by (rule outfile_name_eq)
next
  fix en s0 assume "\<not> leaf en"
  then show "visit P c en s0 = (Done, s0)" by (rule visit_not_leaf)
next
  fix s0 d
  assume "processed_data (snd (convert P c t s0)) = Some d"
  then have "d = commit Map.empty (fst (snd (walk_out P c (os_walk ''./raw_data'' t))))"
    using convert_out [of P c t s0] by simp
  then show "dom d \<subseteq> set (map (\<lambda>en. outfile_name (fst en)) (filter leaf (os_walk ''./raw_data'' t)))"
    using walk_out_names [of P c "os_walk ''./raw_data'' t"] by (simp add: dom_commit)
qed

theorem artifacts_for_leaves_only_witness:
  "fst (convert demo 1000 nested_tree fresh) = Done \<and>
   (\<exists>d. processed_data (snd (convert demo 1000 nested_tree fresh)) = Some d \<and>
        dom d = {''processed_data/tracks.json.gz''})"
proof -
  have run: "convert demo 1000 nested_tree fresh = (Done, snd (convert demo 1000 nested_tree fresh))"
    using nested_run by (simp add: prod_eq_iff)
  have names: "map (\<lambda>en. outfile_name (fst en)) (filter leaf (os_walk ''./raw_data'' nested_tree)) =
      [''processed_data/tracks.json.gz'', ''processed_data/tracks.json.gz'']"
    by code_simp
  from artifacts_for_leaves_only [OF run] obtain d where
    "processed_data (snd (convert demo 1000 nested_tree fresh)) = Some d"
    "dom d = set (map (\<lambda>en. outfile_name (fst en)) (filter leaf (os_walk ''./raw_data'' nested_tree)))"
    by blast
  then show ?thesis using nested_run by (simp add: names)
qed

section \<open>Files with another extension\<close>

text \<open>
  C6. A file whose extension is neither \<^verbatim>\<open>.json\<close> nor \<^verbatim>\<open>.csv\<close> is passed over:
  processing it prints its progress line and does nothing else, raising no error; and
  a file list with such a file in it gives the same outcome, the same text in the
  stream and the same output directory as the list without it, so the other files of
  the subject are processed as they would be.
\<close>

theorem unsupported_extension_skipped:
  fixes P :: "('e, 'a, 'b) pandas"
  assumes "snd (splitext (fst f)) \<noteq> ''.json''" and "snd (splitext (fst f)) \<noteq> ''.csv''"
  shows "process_file P c f s = (Done, print (processing_line (fst f)) s) \<and>
         fst (process_files P c (fs1 @ f # fs2) s) = fst (process_files P c (fs1 @ fs2) s) \<and>
         ofile (snd (process_files P c (fs1 @ f # fs2) s)) = ofile (snd (process_files P c (fs1 @ fs2) s)) \<and>
         fst (visit P c (root, [], fs1 @ f # fs2) s) = fst (visit P c (root, [], fs1 @ fs2) s) \<and>
         processed_data (snd (visit P c (root, [], fs1 @ f # fs2) s)) =
           processed_data (snd (visit P c (root, [], fs1 @ fs2) s))"
proof -
  have nr: "\<not> recognized f" using assms by (simp add: recognized_def)
  note sk = files_out_skip [OF nr, of P c fs1 fs2]
  have a: "process_file P c f s = (Done, print (processing_line (fst f)) s)"
    by (simp add: process_file_out file_out_unrecognized [OF nr] print_emit)
  have b: "fst (process_files P c (fs1 @ f # fs2) s) = fst (process_files P c (fs1 @ fs2) s)"
    using sk by (simp add: process_files_out)
  have c: "ofile (snd (process_files P c (fs1 @ f # fs2) s)) = ofile (snd (process_files P c (fs1 @ fs2) s))"
    using sk by (simp add: process_files_out emit_def)
  have l: "leaf (root, [], fs)" for fs :: "src_file list" by (simp add: leaf_def)
  have d: "fst (visit P c (root, [], fs1 @ f # fs2) s) = fst (visit P c (root, [], fs1 @ fs2) s) \<and>
         processed_data (snd (visit P c (root, [], fs1 @ f # fs2) s)) =
           processed_data (snd (visit P c (root, [], fs1 @ fs2) s))"
  proof (cases "processed_data s")
    case None
    then show ?thesis
      using visit_no_outdir [OF l None, where P = P and c = c] by (simp add: print_def)
  next
    case (Some d)
    then show ?thesis
      using visit_leaf [OF l Some, where P = P and c = c] sk by simp
  qed
  show ?thesis using a b c d by blast
qed

theorem unsupported_extension_skipped_witness:
  \<open>snd (splitext ''notes.txt'') \<noteq> ''.json'' \<and> snd (splitext ''notes.txt'') \<noteq> ''.csv'' \<and>
   process_file demo 1000 (''notes.txt'', [''hello'']) fresh =
     (Done, print (processing_line ''notes.txt'') fresh) \<and>
   ofile (snd (process_files demo 1000 ([(''a.json'', [''{"a":1}''])] @ (''notes.txt'', [''hello'']) # []) fresh)) =
     [[(''a'', ''1'')]]\<close>
proof -
  have a: "snd (splitext (fst (''notes.txt'', [''hello'']))) \<noteq> ''.json''" by code_simp
  have b: "snd (splitext (fst (''notes.txt'', [''hello'']))) \<noteq> ''.csv''" by code_simp
  have e: \<open>ofile (snd (process_files demo 1000 ([(''a.json'', [''{"a":1}''])] @ []) fresh)) = [[(''a'', ''1'')]]\<close>
    by code_simp
  from unsupported_extension_skipped [OF a b, of demo 1000 fresh \<open>[(''a.json'', [''{"a":1}''])]\<close> "[]"]
  show ?thesis using a b e by simp
qed

section \<open>One compressed stream for a subject\<close>

text \<open>
  C8. Visiting a leaf directory adds exactly one gzip member to its artifact and touches
  no other file: the member holds all that the file loop wrote through the one stream,
  which for a completed visit is every chunk of every recognized file of the subject.
  The stream is opened before any file is read: without an output directory the visit
  fails at the open, having printed only the line that names the artifact.
\<close>

theorem one_stream_per_subject:
  fixes P :: "('e, 'a, 'b) pandas"
  assumes "processed_data s = Some d"
  shows "(\<exists>m. processed_data (snd (visit P c (root, [], fs) s)) =
                 Some (d(outfile_name root \<mapsto> members d (outfile_name root) @ [m])) \<and>
              m = ofile (snd (process_files P c fs (s\<lparr>ofile := []\<rparr>))) \<and>
              (fst (visit P c (root, [], fs) s) = Done \<longrightarrow> m = subject_records P c fs)) \<and>
         (\<forall>s0. processed_data s0 = None \<longrightarrow>
            visit P c (root, [], fs) s0 =
              (Raised FileNotFoundError, print (writing_line (outfile_name root)) s0))"
proof (intro conjI allI impI)
  have l: "leaf (root, [], fs)" by (simp add: leaf_def)
  show "\<exists>m. processed_data (snd (visit P c (root, [], fs) s)) =
                 Some (d(outfile_name root \<mapsto> members d (outfile_name root) @ [m])) \<and>
              m = ofile (snd (process_files P c fs (s\<lparr>ofile := []\<rparr>))) \<and>
              (fst (visit P c (root, [], fs) s) = Done \<longrightarrow> m = subject_records P c fs)"
    using visit_leaf [OF l assms, of P c] files_out_Done [of P c fs]
    by (simp add: process_files_out emit_def)
next
  fix s0 :: "'b state" assume "processed_data s0 = None"
  then show "visit P c (root, [], fs) s0 =
      (Raised FileNotFoundError, print (writing_line (outfile_name root)) s0)"
    using visit_no_outdir [where en = "(root, [], fs)" and s = s0 and P = P and c = c]
    by (simp add: leaf_def)
qed

theorem one_stream_per_subject_witness:
  "processed_data stale = Some [''processed_data/tracks.json.gz'' \<mapsto> [[[(''z'', ''9'')]]]] \<and>
   (\<exists>m. processed_data (snd (visit demo 1000 (''./raw_data/tracks'', [], files (snd (hd (subdirs tracks_tree)))) stale)) =
          Some [''processed_data/tracks.json.gz'' \<mapsto> [[[(''z'', ''9'')]], m]] \<and>
        length m = 5)"
proof -
  have h: "processed_data stale = Some [''processed_data/tracks.json.gz'' \<mapsto> [[[(''z'', ''9'')]]]]"
    by (simp add: stale_def)
  have n: "outfile_name ''./raw_data/tracks'' = ''processed_data/tracks.json.gz''"
    by code_simp
  have d: "fst (visit demo 1000 (''./raw_data/tracks'', [], files (snd (hd (subdirs tracks_tree)))) stale) = Done"
    by code_simp
  have l: "length (subject_records demo 1000 (files (snd (hd (subdirs tracks_tree))))) = 5"
    by code_simp
  from one_stream_per_subject [OF h, of demo 1000 "''./raw_data/tracks''" "files (snd (hd (subdirs tracks_tree)))"]
  show ?thesis using h d l by (auto simp: n members_def)
qed

section \<open>Nested leaf directories\<close>

text \<open>
  C10. The traversal reaches every depth: a leaf directory found by any list of names
  from the root is visited as a subject. Its artifact is named by its basename alone,
  which is its own name, the last of the list. When the run completes, the artifact
  holds one member for each leaf directory of the tree with that basename, in the order
  of the traversal, so that two leaf directories of one name are written to one and the
  same artifact.
\<close>

theorem nested_leaves_share_artifact:
  fixes P :: "('e, 'a, 'b) pandas"
  assumes "convert P c t s = (Done, s')" and "subtree t ns = Some (Dir [] fs)"
  shows "(foldl path_join ''./raw_data'' ns, [], fs)
           \<in> set (subjects t (outfile_name (foldl path_join ''./raw_data'' ns))) \<and>
         (\<exists>d. processed_data s' = Some d \<and>
              d (outfile_name (foldl path_join ''./raw_data'' ns)) =
                Some (map (\<lambda>en. subject_records P c (snd (snd en)))
                       (subjects t (outfile_name (foldl path_join ''./raw_data'' ns))))) \<and>
         (ns \<noteq> [] \<and> CHR ''/'' \<notin> set (last ns) \<longrightarrow>
            outfile_name (foldl path_join ''./raw_data'' ns) = ''processed_data/'' @ last ns @ ''.json.gz'') \<and>
         (\<forall>en \<in> set (os_walk ''./raw_data'' t).
            leaf en \<and> basename (fst en) = basename (foldl path_join ''./raw_data'' ns) \<longrightarrow>
            en \<in> set (subjects t (outfile_name (foldl path_join ''./raw_data'' ns))))"
proof (intro conjI impI ballI)
  let ?ens = "os_walk ''./raw_data'' t"
  let ?root = "foldl path_join ''./raw_data'' ns"
  let ?g = "\<lambda>en. (outfile_name (fst en), subject_records P c (snd (snd en)))"
  have mem: "(?root, [], fs) \<in> set ?ens"
    using os_walk_subtree [OF assms(2), of "''./raw_data''"] by simp
  then show sub: "(?root, [], fs) \<in> set (subjects t (outfile_name ?root))"
    by (simp add: subjects_def leaf_def)
  from assms have d: "fst (walk_out P c ?ens) = Done"
    using convert_out [of P c t s] by simp
  have pd: "processed_data s' = Some (commit Map.empty (map ?g (filter leaf ?ens)))"
    using convert_out [of P c t s] assms walk_out_Done [OF d] by simp
  have f: "filter (\<lambda>nm. fst nm = outfile_name ?root) (map ?g (filter leaf ?ens)) =
             map ?g (subjects t (outfile_name ?root))"
    by (simp add: subjects_def filter_map o_def conj_commute)
  have ne: "subjects t (outfile_name ?root) \<noteq> []" using sub by auto
  show "\<exists>d. processed_data s' = Some d \<and>
         d (outfile_name ?root) =
           Some (map (\<lambda>en. subject_records P c (snd (snd en))) (subjects t (outfile_name ?root)))"
    using pd ne by (simp add: commit_def f members_def o_def)
next
  assume "ns \<noteq> [] \<and> CHR ''/'' \<notin> set (last ns)"
  then show "outfile_name (foldl path_join ''./raw_data'' ns) = ''processed_data/'' @ last ns @ ''.json.gz''"
    by (simp add: outfile_name_eq basename_descend)
next
  fix en assume "en \<in> set (os_walk ''./raw_data'' t)"
    and "leaf en \<and> basename (fst en) = basename (foldl path_join ''./raw_data'' ns)"
  then show "en \<in> set (subjects t (outfile_name (foldl path_join ''./raw_data'' ns)))"
    by (simp add: subjects_def outfile_name_eq)
qed

theorem nested_leaves_share_artifact_witness:
  \<open>fst (convert demo 1000 nested_tree fresh) = Done \<and>
   subtree nested_tree [''archive'', ''2020'', ''tracks''] = Some (Dir [] [(''old.json'', [''{"a":3}''])]) \<and>
   (\<exists>d. processed_data (snd (convert demo 1000 nested_tree fresh)) = Some d \<and>
        d ''processed_data/tracks.json.gz'' =
          Some [[[(''id'', ''1''), (''name'', ''x'')]], [[(''a'', ''3'')]]])\<close>
proof -
  have run: "convert demo 1000 nested_tree fresh = (Done, snd (convert demo 1000 nested_tree fresh))"
    using nested_run by (simp add: prod_eq_iff)
  have st: \<open>subtree nested_tree [''archive'', ''2020'', ''tracks''] = Some (Dir [] [(''old.json'', [''{"a":3}''])])\<close>
    by code_simp
  have n: "outfile_name (foldl path_join ''./raw_data'' [''archive'', ''2020'', ''tracks'']) =
      ''processed_data/tracks.json.gz''"
    by code_simp
  have ms: "map (\<lambda>en. subject_records demo 1000 (snd (snd en))) (subjects nested_tree ''processed_data/tracks.json.gz'') =
      [[[(''id'', ''1''), (''name'', ''x'')]], [[(''a'', ''3'')]]]"
    by code_simp
  from nested_leaves_share_artifact [OF run st]
  show ?thesis using nested_run st by (auto simp: n ms)
qed

section \<open>The chunk size\<close>




section \<open>The two decoders\<close>

text \<open>
  C3, as the code has it. A subject with one \<^verbatim>\<open>.csv\<close> file of a header and three
  rows and one \<^verbatim>\<open>.json\<close> file of two lines, all of them decodable, in either order
  of the file list: the cell completes and the artifact holds exactly five records, the
  three of the CSV file keyed by the columns of its header, and the two of the JSON
  file keyed, both of them, by the keys of the two lines together, where first seen
  (the two lines are one chunk, hence one frame); these are each line's own keys when
  the two lines have the same keys.
\<close>

theorem extension_dispatch_five_records:
  fixes P :: "('e, 'a, 'b) pandas"
  assumes "snd (splitext cn) = ''.csv''" and "snd (splitext jn) = ''.json''"
    and "csv_header P h = Inr cols"
    and "csv_row P cols r1 = Inr x1" and "csv_row P cols r2 = Inr x2" and "csv_row P cols r3 = Inr x3"
    and "json_line P l1 = Inr j1" and "json_line P l2 = Inr j2"
  shows
    "(\<exists>s' recs.
        notebook_cell P (Dir [(nm, Dir [] [(cn, [h, r1, r2, r3]), (jn, [l1, l2])])] []) s = (Done, s') \<and>
        decompress s' (outfile_name (path_join ''./raw_data'' nm)) = Some recs \<and>
        recs = to_json P (cols, [x1, x2, x3]) @ to_json P (json_frame [j1, j2]) \<and>
        length recs = 5 \<and>
        map (map fst) recs =
          [cols, cols, cols, first_seen (map fst j1 @ map fst j2), first_seen (map fst j1 @ map fst j2)]) \<and>
     (\<exists>s' recs.
        notebook_cell P (Dir [(nm, Dir [] [(jn, [l1, l2]), (cn, [h, r1, r2, r3])])] []) s = (Done, s') \<and>
        decompress s' (outfile_name (path_join ''./raw_data'' nm)) = Some recs \<and>
        recs = to_json P (json_frame [j1, j2]) @ to_json P (cols, [x1, x2, x3]) \<and>
        length recs = 5 \<and>
        map (map fst) recs =
          [first_seen (map fst j1 @ map fst j2), first_seen (map fst j1 @ map fst j2), cols, cols, cols])"
proof -
  have k: "(0::nat) < 1000" by simp
  have pc: "parse_all (csv_row P cols) [r1, r2, r3] = Inr [x1, x2, x3]"
    using assms by simp
  have pj: "parse_all (json_line P) [l1, l2] = Inr [j1, j2]"
    using assms by simp
  have c3: "chunks 1000 [x1, x2, x3] = [[x1, x2, x3]]"
    by (simp add: chunks_step)
  have c2: "chunks 1000 [j1, j2] = [[j1, j2]]"
    by (simp add: chunks_step)
  have fc: "file_out P 1000 (cn, [h, r1, r2, r3]) = (Done, to_json P (cols, [x1, x2, x3]))"
    using csv_file_ok [OF k assms(1) assms(3) pc] by (simp add: c3)
  have fj: "file_out P 1000 (jn, [l1, l2]) = (Done, to_json P (json_frame [j1, j2]))"
    using json_file_ok [OF k assms(2) pj] by (simp add: c2)
  let ?C = "to_json P (cols, [x1, x2, x3])" and ?J = "to_json P (json_frame [j1, j2])"
  have kc: "map (map fst) ?C = [cols, cols, cols]" by (simp add: to_json_keys)
  have kj: "map (map fst) ?J =
      [first_seen (map fst j1 @ map fst j2), first_seen (map fst j1 @ map fst j2)]"
    by (simp add: to_json_keys json_frame_def)
  have lc: "length ?C = 3" and lj: "length ?J = 2"
    by (simp_all add: to_json_def json_frame_def)
  have f1: "fst (files_out P 1000 [(cn, [h, r1, r2, r3]), (jn, [l1, l2])]) = Done"
    "fst (snd (files_out P 1000 [(cn, [h, r1, r2, r3]), (jn, [l1, l2])])) = ?C @ ?J"
    by (simp_all add: fc fj)
  have f2: "fst (files_out P 1000 [(jn, [l1, l2]), (cn, [h, r1, r2, r3])]) = Done"
    "fst (snd (files_out P 1000 [(jn, [l1, l2]), (cn, [h, r1, r2, r3])])) = ?J @ ?C"
    by (simp_all add: fc fj)
  note r1 = single_subject_run [OF f1(1), of nm s]
  note r2 = single_subject_run [OF f2(1), of nm s]
  have a: "\<exists>s' recs.
        notebook_cell P (Dir [(nm, Dir [] [(cn, [h, r1, r2, r3]), (jn, [l1, l2])])] []) s = (Done, s') \<and>
        decompress s' (outfile_name (path_join ''./raw_data'' nm)) = Some recs \<and>
        recs = ?C @ ?J \<and> length recs = 5 \<and>
        map (map fst) recs =
          [cols, cols, cols, first_seen (map fst j1 @ map fst j2), first_seen (map fst j1 @ map fst j2)]"
    using r1 f1(2) kc kj lc lj
    by (intro exI [of _ "snd (convert P 1000 (Dir [(nm, Dir [] [(cn, [h, r1, r2, r3]), (jn, [l1, l2])])] []) s)"]
          exI [of _ "?C @ ?J"])
       (simp add: notebook_cell_def prod_eq_iff)
  have b: "\<exists>s' recs.
        notebook_cell P (Dir [(nm, Dir [] [(jn, [l1, l2]), (cn, [h, r1, r2, r3])])] []) s = (Done, s') \<and>
        decompress s' (outfile_name (path_join ''./raw_data'' nm)) = Some recs \<and>
        recs = ?J @ ?C \<and> length recs = 5 \<and>
        map (map fst) recs =
          [first_seen (map fst j1 @ map fst j2), first_seen (map fst j1 @ map fst j2), cols, cols, cols]"
    using r2 f2(2) kc kj lc lj
    by (intro exI [of _ "snd (convert P 1000 (Dir [(nm, Dir [] [(jn, [l1, l2]), (cn, [h, r1, r2, r3])])] []) s)"]
          exI [of _ "?J @ ?C"])
       (simp add: notebook_cell_def prod_eq_iff)
  show ?thesis using a b by blast
qed

theorem extension_dispatch_five_records_witness:
  \<open>snd (splitext ''tracks_0.csv'') = ''.csv'' \<and> snd (splitext ''tracks_1.json'') = ''.json'' \<and>
   csv_header demo ''id,name'' = Inr [''id'', ''name''] \<and>
   json_line demo ''{"a":1}'' = Inr [(''a'', ''1'')] \<and>
   json_line demo ''{"a":3}'' = Inr [(''a'', ''3'')] \<and>
   (\<exists>s' recs.
      notebook_cell demo
        (Dir [(''tracks'', Dir [] [(''tracks_0.csv'', [''id,name'', ''1,x'', ''2,y'', ''3,z'']),
                                  (''tracks_1.json'', [''{"a":1}'', ''{"a":3}''])])] []) fresh = (Done, s') \<and>
      decompress s' ''processed_data/tracks.json.gz'' = Some recs \<and>
      length recs = 5 \<and>
      map (map fst) recs = [[''id'', ''name''], [''id'', ''name''], [''id'', ''name''], [''a''], [''a'']])\<close>
proof -
  have c: "snd (splitext ''tracks_0.csv'') = ''.csv''" by code_simp
  have j: "snd (splitext ''tracks_1.json'') = ''.json''" by code_simp
  have h: "csv_header demo ''id,name'' = Inr [''id'', ''name'']" by code_simp
  have r1: "csv_row demo [''id'', ''name''] ''1,x'' = Inr [(''id'', ''1''), (''name'', ''x'')]" by code_simp
  have r2: "csv_row demo [''id'', ''name''] ''2,y'' = Inr [(''id'', ''2''), (''name'', ''y'')]" by code_simp
  have r3: "csv_row demo [''id'', ''name''] ''3,z'' = Inr [(''id'', ''3''), (''name'', ''z'')]" by code_simp
  have l1: \<open>json_line demo ''{"a":1}'' = Inr [(''a'', ''1'')]\<close> by code_simp
  have l2: \<open>json_line demo ''{"a":3}'' = Inr [(''a'', ''3'')]\<close> by code_simp
  have n: "outfile_name (path_join ''./raw_data'' ''tracks'') = ''processed_data/tracks.json.gz''"
    by code_simp
  have k: "first_seen (map fst [(''a'', ''1'')] @ map fst [(''a'', ''3'')]) = [''a'']"
    by code_simp
  note inst = extension_dispatch_five_records [OF c j h r1 r2 r3 l1 l2, of "''tracks''" fresh,
      THEN conjunct1, unfolded n k]
  from inst obtain s' recs where
    A: \<open>notebook_cell demo
        (Dir [(''tracks'', Dir [] [(''tracks_0.csv'', [''id,name'', ''1,x'', ''2,y'', ''3,z'']),
                                  (''tracks_1.json'', [''{"a":1}'', ''{"a":3}''])])] []) fresh = (Done, s')\<close>
    and B: "decompress s' ''processed_data/tracks.json.gz'' = Some recs"
    and L: "length recs = 5"
    and K: "map (map fst) recs = [[''id'', ''name''], [''id'', ''name''], [''id'', ''name''], [''a''], [''a'']]"
    by (elim exE conjE)
  show ?thesis
    by (intro conjI exI [of _ s'] exI [of _ recs]) (fact c j h l1 l2 A B L K)+
qed

text \<open>
  C3 as stated fails where the two JSON lines have different keys: the object written
  for \<^verbatim>\<open>{"a":1}\<close> has the keys \<^verbatim>\<open>a\<close> and \<^verbatim>\<open>b\<close>, not the line's own key alone.
\<close>

theorem json_objects_keyed_by_chunk_columns:
  \<open>decompress (snd (notebook_cell demo tracks_tree fresh)) ''processed_data/tracks.json.gz'' =
     Some [[(''a'', ''1.0''), (''b'', ''null'')], [(''a'', ''null''), (''b'', ''2.0'')],
           [(''id'', ''1''), (''name'', ''x'')], [(''id'', ''2''), (''name'', ''y'')],
           [(''id'', ''3''), (''name'', ''z'')]] \<and>
   json_line demo ''{"a":1}'' = Inr [(''a'', ''1'')] \<and>
   json_line demo ''{"b":2}'' = Inr [(''b'', ''2'')] \<and>
   map fst [(''a'', ''1.0''), (''b'', ''null'')] \<noteq> map fst [(''a'', ''1'')]\<close>
  by code_simp

section \<open>Decoding errors\<close>




end
